theory Spec2Isabelle
  imports Main
begin

section \<open>Parse trees of the assembler grammar\<close>

text \<open>
  The assembler of \<^verbatim>\<open>br_asm.py\<close> works on the tree that the Lark parser builds
  from the source text. A token carries its terminal name, the matched text and
  its position; a statement is a tree whose \<open>data\<close> is the alias of the grammar
  rule (\<open>jp\<close>, \<open>ldi\<close>, \<open>add\<close>, ...) and whose children are the operand tokens
  (keywords and commas are filtered out, the rules \<open>?target\<close>, \<open>?imm\<close>, \<open>?dst\<close>,
  \<open>?src1\<close>, \<open>?src2\<close> are inlined). A line has three optional children, in the
  order label, statement, comment; an absent one is Python's \<open>None\<close>.
\<close>

datatype token =
  Token (ttype: string) (tvalue: string) (tline: "int option") (tcolumn: "int option")

datatype tree = Tree (data: string) (children: "token list")

record line =
  line_label :: "token option"
  line_stmt :: "tree option"
  line_comment :: "token option"

type_synonym program = "line list"

datatype error = IndexError | ValueError | KeyError | TypeError | AssertionError

section \<open>Python primitives used by the assembler\<close>

text \<open>Characters are code points below 256; the newline is code point 10.\<close>

definition NL :: char where
  "NL = CHR 0x0A"

definition QUOTE :: char where
  "QUOTE = CHR 0x27"

definition digit_val :: "char \<Rightarrow> int option" where
  "digit_val c = map_of (zip ''0123456789'' [0, 1, 2, 3, 4, 5, 6, 7, 8, 9]) c"

definition is_space :: "char \<Rightarrow> bool" where
  "is_space c = (c \<in> set [CHR 0x09, CHR 0x0A, CHR 0x0B, CHR 0x0C, CHR 0x0D,
      CHR 0x1C, CHR 0x1D, CHR 0x1E, CHR 0x1F, CHR 0x20, CHR 0x85, CHR 0xA0])"

text \<open>
  The digits of a decimal literal as \<open>int()\<close> reads them: a digit first, and a
  single underscore only between two digits.
\<close>

fun digits_value :: "int \<Rightarrow> string \<Rightarrow> int option" where
  "digits_value acc [] = Some acc"
| "digits_value acc (c # cs) =
     (case digit_val c of
        Some d \<Rightarrow> digits_value (acc * 10 + d) cs
      | None \<Rightarrow>
          (if c = CHR ''_'' then
             (case cs of
                [] \<Rightarrow> None
              | c' # _ \<Rightarrow> (if digit_val c' = None then None else digits_value acc cs))
           else None))"

definition unsigned_value :: "string \<Rightarrow> int option" where
  "unsigned_value s =
     (case s of
        [] \<Rightarrow> None
      | c # _ \<Rightarrow> (if digit_val c = None then None else digits_value 0 s))"

text \<open>
  \<open>int(s)\<close> for a string: surrounding whitespace is dropped, one sign is allowed,
  anything else raises \<open>ValueError\<close>.
\<close>

definition py_int :: "string \<Rightarrow> error + int" where
  "py_int s =
     (let t = rev (dropWhile is_space (rev (dropWhile is_space s)));
          neg = (case t of [] \<Rightarrow> False | c # _ \<Rightarrow> c = CHR ''-'');
          body = (case t of [] \<Rightarrow> []
                  | c # r \<Rightarrow> (if c = CHR ''-'' \<or> c = CHR ''+'' then r else t))
      in (case unsigned_value body of
            None \<Rightarrow> Inl ValueError
          | Some v \<Rightarrow> Inr (if neg then - v else v)))"

definition digit_char :: "nat \<Rightarrow> char" where
  "digit_char n = ''0123456789'' ! n"

fun str_nat :: "nat \<Rightarrow> string" where
  "str_nat n = (if n < 10 then [digit_char n] else str_nat (n div 10) @ [digit_char (n mod 10)])"

declare str_nat.simps [simp del]

text \<open>\<open>str(i)\<close> of an integer, and of a position that may be \<open>None\<close>.\<close>

definition str_int :: "int \<Rightarrow> string" where
  "str_int i = (if i < 0 then CHR ''-'' # str_nat (nat (- i)) else str_nat (nat i))"

definition str_opt :: "int option \<Rightarrow> string" where
  "str_opt p = (case p of None \<Rightarrow> ''None'' | Some i \<Rightarrow> str_int i)"

text \<open>Format specifications: \<open>{s:w}\<close> pads a string on the right, \<open>{i:w}\<close> pads an
  integer on the left, \<open>{i:0>2}\<close> pads on the left with zeros.\<close>

definition ljust :: "nat \<Rightarrow> string \<Rightarrow> string" where
  "ljust w s = s @ replicate (w - length s) CHR '' ''"

definition rjust :: "char \<Rightarrow> nat \<Rightarrow> string \<Rightarrow> string" where
  "rjust fill w s = replicate (w - length s) fill @ s"

fun join :: "string \<Rightarrow> string list \<Rightarrow> string" where
  "join sep [] = []"
| "join sep [x] = x"
| "join sep (x # y # ys) = x @ sep @ join sep (y # ys)"

section \<open>The assembler\<close>

record assembler =
  labels :: "string \<rightharpoonup> int"
  listing :: string
  address :: int

definition NAME :: string where
  "NAME = ''AEGIS BrickRigs CPU 0.6 Assembler''"

definition header :: string where
  "header = ''; '' @ NAME @ [NL] @ '';'' @ [NL]"

definition clear :: "assembler \<Rightarrow> assembler" where
  "clear a = a\<lparr>listing := header\<rparr>"

text \<open>The constructor: an empty label table, then \<open>clear\<close>. The address counter is
  not set before \<open>assemble\<close> sets it to 0.\<close>

definition new_assembler :: assembler where
  "new_assembler = clear \<lparr>labels = Map.empty, listing = [], address = 0\<rparr>"

subsection \<open>Diagnostics\<close>

text \<open>\<open>error\<close> prints one line on the error stream; the model returns it.\<close>

definition error_line :: "token \<Rightarrow> string \<Rightarrow> string" where
  "error_line t msg = str_opt (tline t) @ '':'' @ str_opt (tcolumn t) @ '' Error: '' @ msg"

subsection \<open>Operand encoders\<close>

definition match_pc :: "string \<Rightarrow> bool" where
  "match_pc v =
     (case v of
        a # b # _ \<Rightarrow> (a = CHR ''p'' \<or> a = CHR ''P'') \<and> (b = CHR ''c'' \<or> b = CHR ''C'')
      | _ \<Rightarrow> False)"

definition reg :: "token \<Rightarrow> error + int" where
  "reg t =
     (if match_pc (tvalue t) then Inr 9
      else (case drop 1 (tvalue t) of
              [] \<Rightarrow> Inl IndexError
            | c # _ \<Rightarrow> py_int [c]))"

text \<open>An encoder returns its value (or the exception it raises) and the diagnostic
  lines it printed. \<open>imm\<close> and \<open>target\<close> return \<open>None\<close> for a token of another type.\<close>

type_synonym 'a res = "(error + 'a) \<times> string list"

definition clamp_literal :: "token \<Rightarrow> int \<Rightarrow> int option res" where
  "clamp_literal t val =
     (if val < 0 then
        (Inr (Some 0), [error_line t (''literal '' @ str_int val @ '' must be non-negative'')])
      else if val > 99 then
        (Inr (Some 99), [error_line t (''literal '' @ str_int val @ '' must be less than 100'')])
      else (Inr (Some val), []))"

definition imm :: "(string \<rightharpoonup> int) \<Rightarrow> token \<Rightarrow> int option res" where
  "imm lbls t =
     (if ttype t = ''IMMINT'' then
        (case py_int (drop 1 (tvalue t)) of
           Inl e \<Rightarrow> (Inl e, [])
         | Inr val \<Rightarrow> clamp_literal t val)
      else if ttype t = ''IMMLABEL'' then
        (case lbls (tvalue t) of
           None \<Rightarrow> (Inr (Some 0), [error_line t (''unknown label '' @ tvalue t)])
         | Some tg \<Rightarrow> (Inr (Some tg), []))
      else (Inr None, []))"

definition target :: "(string \<rightharpoonup> int) \<Rightarrow> token \<Rightarrow> int option res" where
  "target lbls t =
     (if ttype t = ''INT'' then
        (case py_int (tvalue t) of
           Inl e \<Rightarrow> (Inl e, [])
         | Inr val \<Rightarrow> clamp_literal t val)
      else if ttype t = ''LABEL'' then
        (case lbls (tvalue t) of
           None \<Rightarrow>
             (Inr (Some 0),
              [error_line t (''unknown label '' @ [QUOTE] @ tvalue t @ [QUOTE])])
         | Some tg \<Rightarrow> (Inr (Some tg), []))
      else (Inr None, []))"

definition op_at :: "token list \<Rightarrow> nat \<Rightarrow> error + token" where
  "op_at ops i = (if i < length ops then Inr (ops ! i) else Inl IndexError)"

definition reg_at :: "token list \<Rightarrow> nat \<Rightarrow> error + int" where
  "reg_at ops i = (case op_at ops i of Inl e \<Rightarrow> Inl e | Inr t \<Rightarrow> reg t)"

definition word_3addr :: "(string \<rightharpoonup> int) \<Rightarrow> token list \<Rightarrow> int option res" where
  "word_3addr lbls ops =
     (case reg_at ops 0 of
        Inl e \<Rightarrow> (Inl e, [])
      | Inr dst \<Rightarrow>
          (case reg_at ops 1 of
             Inl e \<Rightarrow> (Inl e, [])
           | Inr src1 \<Rightarrow>
               (case reg_at ops 2 of
                  Inl e \<Rightarrow> (Inl e, [])
                | Inr src2 \<Rightarrow> (Inr (Some (dst * 100 + src1 * 10 + src2)), []))))"

definition word_2addr :: "(string \<rightharpoonup> int) \<Rightarrow> token list \<Rightarrow> int option res" where
  "word_2addr lbls ops =
     (case reg_at ops 0 of
        Inl e \<Rightarrow> (Inl e, [])
      | Inr dst \<Rightarrow>
          (case reg_at ops 1 of
             Inl e \<Rightarrow> (Inl e, [])
           | Inr src1 \<Rightarrow> (Inr (Some (dst * 100 + src1 * 10)), [])))"

text \<open>In \<open>word_dstimm\<close> the sum \<open>dst*100 + imm\<close> raises \<open>TypeError\<close> when \<open>imm\<close>
  is \<open>None\<close>.\<close>

definition word_dstimm :: "(string \<rightharpoonup> int) \<Rightarrow> token list \<Rightarrow> int option res" where
  "word_dstimm lbls ops =
     (case reg_at ops 0 of
        Inl e \<Rightarrow> (Inl e, [])
      | Inr dst \<Rightarrow>
          (case op_at ops 1 of
             Inl e \<Rightarrow> (Inl e, [])
           | Inr t \<Rightarrow>
               (case imm lbls t of
                  (Inl e, d) \<Rightarrow> (Inl e, d)
                | (Inr None, d) \<Rightarrow> (Inl TypeError, d)
                | (Inr (Some i), d) \<Rightarrow> (Inr (Some (dst * 100 + i)), d))))"

definition word_jump :: "(string \<rightharpoonup> int) \<Rightarrow> token list \<Rightarrow> int option res" where
  "word_jump lbls ops =
     (case op_at ops 0 of
        Inl e \<Rightarrow> (Inl e, [])
      | Inr t \<Rightarrow> target lbls t)"

definition INSTRUCTIONS ::
  "string \<rightharpoonup> (int \<times> ((string \<rightharpoonup> int) \<Rightarrow> token list \<Rightarrow> int option res))" where
  "INSTRUCTIONS = map_of
     [(''add'', (0, word_3addr)),
      (''ld'', (0, word_2addr)),
      (''neg'', (1000, word_2addr)),
      (''sub'', (2000, word_3addr)),
      (''mul'', (3000, word_3addr)),
      (''div'', (4000, word_3addr)),
      (''mod'', (5000, word_3addr)),
      (''round'', (6000, word_2addr)),
      (''ldi'', (7000, word_dstimm)),
      (''jp'', (7900, word_jump)),
      (''floor'', (8000, word_2addr))]"

text \<open>The word of a statement, \<open>fmt[0] + fmt[1](self, ops)\<close> in \<open>line_pass2\<close>: an
  unknown rule name raises \<open>KeyError\<close>, a \<open>None\<close> operand value raises \<open>TypeError\<close>.\<close>

definition stmt_word :: "(string \<rightharpoonup> int) \<Rightarrow> tree \<Rightarrow> int res" where
  "stmt_word lbls st =
     (case INSTRUCTIONS (data st) of
        None \<Rightarrow> (Inl KeyError, [])
      | Some (base, f) \<Rightarrow>
          (case f lbls (children st) of
             (Inl e, d) \<Rightarrow> (Inl e, d)
           | (Inr None, d) \<Rightarrow> (Inl TypeError, d)
           | (Inr (Some w), d) \<Rightarrow> (Inr (base + w), d)))"

subsection \<open>Pass 1: collect labels\<close>

text \<open>The label of a line: the text of the label token without its last character
  (the colon); \<open>None\<close> in pass 1 and the empty string in pass 2 when there is no
  label token. Both are false in a condition.\<close>

definition label_of :: "line \<Rightarrow> string" where
  "label_of ln =
     (case line_label ln of
        None \<Rightarrow> []
      | Some t \<Rightarrow> (if tvalue t = [] then [] else butlast (tvalue t)))"

definition line_pass1 :: "assembler \<Rightarrow> line \<Rightarrow> assembler" where
  "line_pass1 a ln =
     (let a1 = (if label_of ln \<noteq> [] then a\<lparr>labels := (labels a)(label_of ln \<mapsto> address a)\<rparr>
                else a)
      in (if line_stmt ln \<noteq> None then a1\<lparr>address := address a1 + 1\<rparr> else a1))"

definition visit_pass1 :: "assembler \<Rightarrow> program \<Rightarrow> assembler" where
  "visit_pass1 a p = foldl line_pass1 a p"

subsection \<open>Pass 2: emit code\<close>

record outcome =
  raised :: "error option"
  state :: assembler
  stdout :: string
  stderr :: "string list"

definition fmt_word :: "int option \<Rightarrow> string" where
  "fmt_word w = (case w of None \<Rightarrow> ljust 4 [] | Some i \<Rightarrow> rjust CHR '' '' 4 (str_int i))"

definition listing_row ::
  "int \<Rightarrow> int option \<Rightarrow> string \<Rightarrow> string \<Rightarrow> token list \<Rightarrow> string \<Rightarrow> string" where
  "listing_row addr word label instr ops cmt =
     (let textops = map tvalue ops;
          inops = ljust 5 instr @ '' '' @ join '', '' textops
      in rjust CHR ''0'' 2 (str_int addr) @ '' '' @ fmt_word word @ '' '' @ ljust 8 label
         @ ''  '' @ ljust 20 inops @ '' '' @ cmt @ [NL])"

definition comment_of :: "line \<Rightarrow> string" where
  "comment_of ln = (case line_comment ln of None \<Rightarrow> [] | Some t \<Rightarrow> tvalue t)"

text \<open>The row is printed and appended to the listing when the label, the statement
  or the comment is there; then the label's address is asserted; then the address
  counter advances for a statement.\<close>

definition finish_line ::
  "assembler \<Rightarrow> line \<Rightarrow> int option \<Rightarrow> string \<Rightarrow> token list \<Rightarrow> string list \<Rightarrow> outcome" where
  "finish_line a ln word instr ops diags =
     (let label = label_of ln;
          cmt = comment_of ln;
          emit = (label \<noteq> [] \<or> line_stmt ln \<noteq> None \<or> cmt \<noteq> []);
          row = listing_row (address a) word label instr ops cmt;
          a1 = (if emit then a\<lparr>listing := listing a @ row\<rparr> else a);
          out = (if emit then row else []);
          check = (if label \<noteq> [] then
                     (case labels a label of
                        None \<Rightarrow> Some KeyError
                      | Some v \<Rightarrow> (if v = address a then None else Some AssertionError))
                   else None)
      in (case check of
            Some e \<Rightarrow> \<lparr>raised = Some e, state = a1, stdout = out, stderr = diags\<rparr>
          | None \<Rightarrow>
              \<lparr>raised = None,
               state = (if line_stmt ln \<noteq> None then a1\<lparr>address := address a1 + 1\<rparr> else a1),
               stdout = out, stderr = diags\<rparr>))"

definition line_pass2 :: "assembler \<Rightarrow> line \<Rightarrow> outcome" where
  "line_pass2 a ln =
     (case line_stmt ln of
        None \<Rightarrow> finish_line a ln None [] [Token [] [] None None] []
      | Some st \<Rightarrow>
          (case stmt_word (labels a) st of
             (Inl e, d) \<Rightarrow> \<lparr>raised = Some e, state = a, stdout = [], stderr = d\<rparr>
           | (Inr w, d) \<Rightarrow> finish_line a ln (Some w) (data st) (children st) d))"

fun visit_pass2 :: "assembler \<Rightarrow> program \<Rightarrow> outcome" where
  "visit_pass2 a [] = \<lparr>raised = None, state = a, stdout = [], stderr = []\<rparr>"
| "visit_pass2 a (ln # lns) =
     (let r = line_pass2 a ln
      in (case raised r of
            Some e \<Rightarrow> r
          | None \<Rightarrow>
              (let r' = visit_pass2 (state r) lns
               in r'\<lparr>stdout := stdout r @ stdout r', stderr := stderr r @ stderr r'\<rparr>)))"

subsection \<open>The two passes\<close>

definition assemble :: "assembler \<Rightarrow> program \<Rightarrow> outcome" where
  "assemble a p =
     (let a1 = visit_pass1 (a\<lparr>address := 0\<rparr>) p;
          r = visit_pass2 (a1\<lparr>address := 0\<rparr>) p
      in r\<lparr>stdout := listing a1 @ stdout r\<rparr>)"

text \<open>One request of the user interface on an already parsed text: \<open>clear\<close>, then
  \<open>assemble\<close>. The parser is a function of the text alone, so a text stands for
  its tree.\<close>

definition request :: "assembler \<Rightarrow> program \<Rightarrow> outcome" where
  "request a p = assemble (clear a) p"

section \<open>The grammar, as a predicate on parse trees\<close>

text \<open>
  The terminals of the grammar: \<open>CNAME\<close> is a letter or underscore followed by
  letters, digits and underscores, \<open>INT\<close> is one digit or more, \<open>REG\<close> is
  \<open>/R[0-9]|PC/i\<close>, \<open>LABELC\<close> is a \<open>CNAME\<close> and a colon, \<open>IMMINT\<close> and \<open>IMMLABEL\<close>
  are a hash sign and an \<open>INT\<close> or a \<open>CNAME\<close>, \<open>COMMENT\<close> is a semicolon and the rest
  of the line.
\<close>

definition is_letter :: "char \<Rightarrow> bool" where
  "is_letter c = (c \<in> set ''abcdefghijklmnopqrstuvwxyzABCDEFGHIJKLMNOPQRSTUVWXYZ'')"

definition is_CNAME :: "string \<Rightarrow> bool" where
  "is_CNAME s =
     (case s of
        [] \<Rightarrow> False
      | c # cs \<Rightarrow>
          (c = CHR ''_'' \<or> is_letter c) \<and>
          list_all (\<lambda>x. x = CHR ''_'' \<or> is_letter x \<or> digit_val x \<noteq> None) cs)"

definition is_INT :: "string \<Rightarrow> bool" where
  "is_INT s = (s \<noteq> [] \<and> list_all (\<lambda>c. digit_val c \<noteq> None) s)"

definition is_REG_text :: "string \<Rightarrow> bool" where
  "is_REG_text v =
     (case v of
        [a, b] \<Rightarrow>
          ((a = CHR ''R'' \<or> a = CHR ''r'') \<and> digit_val b \<noteq> None) \<or>
          ((a = CHR ''P'' \<or> a = CHR ''p'') \<and> (b = CHR ''C'' \<or> b = CHR ''c''))
      | _ \<Rightarrow> False)"

definition is_REG :: "token \<Rightarrow> bool" where
  "is_REG t = (ttype t = ''REG'' \<and> is_REG_text (tvalue t))"

definition is_LABEL :: "token \<Rightarrow> bool" where
  "is_LABEL t = (ttype t = ''LABEL'' \<and> is_CNAME (tvalue t))"

definition is_INT_token :: "token \<Rightarrow> bool" where
  "is_INT_token t = (ttype t = ''INT'' \<and> is_INT (tvalue t))"

definition is_IMMINT :: "token \<Rightarrow> bool" where
  "is_IMMINT t =
     (ttype t = ''IMMINT'' \<and>
      (case tvalue t of [] \<Rightarrow> False | c # r \<Rightarrow> c = CHR ''#'' \<and> is_INT r))"

definition is_IMMLABEL :: "token \<Rightarrow> bool" where
  "is_IMMLABEL t =
     (ttype t = ''IMMLABEL'' \<and>
      (case tvalue t of [] \<Rightarrow> False | c # r \<Rightarrow> c = CHR ''#'' \<and> is_CNAME r))"

definition is_LABELC :: "token \<Rightarrow> bool" where
  "is_LABELC t =
     (ttype t = ''LABELC'' \<and> tvalue t \<noteq> [] \<and> last (tvalue t) = CHR '':'' \<and>
      is_CNAME (butlast (tvalue t)))"

definition is_COMMENT :: "token \<Rightarrow> bool" where
  "is_COMMENT t =
     (ttype t = ''COMMENT'' \<and>
      (case tvalue t of [] \<Rightarrow> False | c # r \<Rightarrow> c = CHR '';'' \<and> list_all (\<lambda>x. x \<noteq> NL) r))"

text \<open>The eleven statement forms of the rule \<open>stmt\<close>.\<close>

definition wf_stmt :: "tree \<Rightarrow> bool" where
  "wf_stmt st =
     (case children st of
        [t] \<Rightarrow> data st = ''jp'' \<and> (is_LABEL t \<or> is_INT_token t)
      | [d, s] \<Rightarrow>
          is_REG d \<and>
          ((data st = ''ldi'' \<and> (is_IMMINT s \<or> is_IMMLABEL s)) \<or>
           (data st \<in> set [''ld'', ''neg'', ''round'', ''floor''] \<and> is_REG s))
      | [d, s1, s2] \<Rightarrow>
          data st \<in> set [''add'', ''sub'', ''mul'', ''div'', ''mod''] \<and>
          is_REG d \<and> is_REG s1 \<and> is_REG s2
      | _ \<Rightarrow> False)"

definition wf_line :: "line \<Rightarrow> bool" where
  "wf_line ln =
     ((case line_label ln of None \<Rightarrow> True | Some t \<Rightarrow> is_LABELC t) \<and>
      (case line_stmt ln of None \<Rightarrow> True | Some st \<Rightarrow> wf_stmt st) \<and>
      (case line_comment ln of None \<Rightarrow> True | Some t \<Rightarrow> is_COMMENT t))"

definition wf_program :: "program \<Rightarrow> bool" where
  "wf_program p = list_all wf_line p"

section \<open>Measures of a program\<close>

definition count_stmts :: "program \<Rightarrow> nat" where
  "count_stmts p = length (filter (\<lambda>ln. line_stmt ln \<noteq> None) p)"

definition defined_labels :: "program \<Rightarrow> string set" where
  "defined_labels p = set (map label_of p) - {[]}"

section \<open>Example programs\<close>

text \<open>A token of the parser always has a line and a column.\<close>

definition tok :: "string \<Rightarrow> string \<Rightarrow> int \<Rightarrow> int \<Rightarrow> token" where
  "tok ty v l c = Token ty v (Some l) (Some c)"

definition mk_line :: "token option \<Rightarrow> tree option \<Rightarrow> token option \<Rightarrow> line" where
  "mk_line l s c = \<lparr>line_label = l, line_stmt = s, line_comment = c\<rparr>"

text \<open>The tree of \<^verbatim>\<open>start: JP end\<close>, \<^verbatim>\<open> mid: LD r1,#5\<close>, \<^verbatim>\<open> end: LD r2,#1\<close>.\<close>

definition prog_forward :: program where
  "prog_forward =
     [mk_line (Some (tok ''LABELC'' ''start:'' 1 1))
        (Some (Tree ''jp'' [tok ''LABEL'' ''end'' 1 11])) None,
      mk_line (Some (tok ''LABELC'' ''mid:'' 2 2))
        (Some (Tree ''ldi'' [tok ''REG'' ''r1'' 2 10, tok ''IMMINT'' ''#5'' 2 13])) None,
      mk_line (Some (tok ''LABELC'' ''end:'' 3 2))
        (Some (Tree ''ldi'' [tok ''REG'' ''r2'' 3 10, tok ''IMMINT'' ''#1'' 3 13])) None]"

text \<open>The tree of \<open>defaulttext\<close> as the text widget hands it over: a blank first
  line, then the five statements. A character of the model is a code point below
  256; the two floor brackets of the fourth comment lie beyond and stand here as
  their UTF-8 bytes, which changes nothing before the comment column.\<close>

definition defaulttext :: program where
  "defaulttext =
     [mk_line None None None,
      mk_line (Some (tok ''LABELC'' ''loop:'' 2 1))
        (Some (Tree ''ldi'' [tok ''REG'' ''r3'' 2 13, tok ''IMMINT'' ''#10'' 2 17]))
        (Some (tok ''COMMENT'' ''; divisor'' 2 30)),
      mk_line None
        (Some (Tree ''div'' [tok ''REG'' ''r1'' 3 14, tok ''REG'' ''r2'' 3 18, tok ''REG'' ''r3'' 3 22]))
        (Some (tok ''COMMENT'' ''; r1 = r2 / 10'' 3 30)),
      mk_line None
        (Some (Tree ''mod'' [tok ''REG'' ''r2'' 4 14, tok ''REG'' ''r2'' 4 18, tok ''REG'' ''r3'' 4 22]))
        (Some (tok ''COMMENT'' ''; r2 = r2 % 10'' 4 30)),
      mk_line None
        (Some (Tree ''floor'' [tok ''REG'' ''r1'' 5 16, tok ''REG'' ''r1'' 5 20]))
        (Some (tok ''COMMENT''
           (''; r1 = '' @ [CHR 0xE2, CHR 0x8C, CHR 0x8A] @ ''r2 / 10'' @ [CHR 0xE2, CHR 0x8C, CHR 0x8B])
           5 30)),
      mk_line None (Some (Tree ''jp'' [tok ''LABEL'' ''loop'' 6 13])) None]"






text \<open>\<^verbatim>\<open>NEG r0,r0\<close>, \<^verbatim>\<open>x: LD r1,#x\<close>: an immediate that names the label of its
  own line, at address 1.\<close>

definition prog_imm_label :: program where
  "prog_imm_label =
     [mk_line None (Some (Tree ''neg'' [tok ''REG'' ''r0'' 1 5, tok ''REG'' ''r0'' 1 8])) None,
      mk_line (Some (tok ''LABELC'' ''x:'' 2 1))
        (Some (Tree ''ldi'' [tok ''REG'' ''r1'' 2 7, tok ''IMMLABEL'' ''#x'' 2 10])) None]"

text \<open>\<^verbatim>\<open>x: NEG r0,r0\<close> twice: the label \<open>x\<close> on two lines.\<close>

definition prog_twice :: program where
  "prog_twice =
     [mk_line (Some (tok ''LABELC'' ''x:'' 1 1))
        (Some (Tree ''neg'' [tok ''REG'' ''r0'' 1 8, tok ''REG'' ''r0'' 1 11])) None,
      mk_line (Some (tok ''LABELC'' ''x:'' 2 1))
        (Some (Tree ''neg'' [tok ''REG'' ''r0'' 2 8, tok ''REG'' ''r0'' 2 11])) None]"

text \<open>\<^verbatim>\<open>NEG r0,r0\<close>, \<^verbatim>\<open>x: NEG r0,r0\<close> defines \<open>x\<close> at address 1; \<^verbatim>\<open>JP x\<close> alone
  refers to a label it does not define.\<close>

definition prog_defines_x :: program where
  "prog_defines_x =
     [mk_line None (Some (Tree ''neg'' [tok ''REG'' ''r0'' 1 5, tok ''REG'' ''r0'' 1 8])) None,
      mk_line (Some (tok ''LABELC'' ''x:'' 2 1))
        (Some (Tree ''neg'' [tok ''REG'' ''r0'' 2 8, tok ''REG'' ''r0'' 2 11])) None]"

definition prog_jp_x :: program where
  "prog_jp_x = [mk_line None (Some (Tree ''jp'' [tok ''LABEL'' ''x'' 1 4])) None]"

text \<open>A line that holds the comment \<^verbatim>\<open>; note\<close> and nothing else.\<close>

definition line_note :: line where
  "line_note = mk_line None None (Some (tok ''COMMENT'' ''; note'' 1 1))"


section \<open>Evaluation\<close>

lemma replicate_numeral: "replicate (numeral k) x = x # replicate (pred_numeral k) x"
  by (simp add: numeral_eq_Suc)

lemmas prim_simps =
  py_int_def is_space_def unsigned_value_def digit_val_def str_int_def str_opt_def
  str_nat.simps digit_char_def ljust_def rjust_def replicate_numeral NL_def QUOTE_def

lemmas encode_simps =
  stmt_word_def INSTRUCTIONS_def word_3addr_def word_2addr_def word_dstimm_def word_jump_def
  op_at_def reg_at_def reg_def match_pc_def imm_def target_def clamp_literal_def error_line_def

lemmas pass_simps =
  request_def assemble_def clear_def new_assembler_def visit_pass1_def line_pass1_def
  label_of_def comment_of_def line_pass2_def finish_line_def listing_row_def fmt_word_def
  header_def NAME_def Let_def tok_def mk_line_def

lemmas grammar_simps =
  wf_program_def wf_line_def wf_stmt_def is_REG_def is_REG_text_def is_LABEL_def
  is_INT_token_def is_IMMINT_def is_IMMLABEL_def is_LABELC_def is_COMMENT_def is_CNAME_def
  is_INT_def is_letter_def

section \<open>Pass 1\<close>

lemma line_pass1_listing: "listing (line_pass1 a ln) = listing a"
  by (simp add: line_pass1_def Let_def)

lemma line_pass1_address:
  "address (line_pass1 a ln) = address a + (if line_stmt ln \<noteq> None then 1 else 0)"
  by (simp add: line_pass1_def Let_def)

lemma line_pass1_labels:
  "labels (line_pass1 a ln) =
     (if label_of ln \<noteq> [] then (labels a)(label_of ln \<mapsto> address a) else labels a)"
  by (simp add: line_pass1_def Let_def)

lemma visit_pass1_Cons: "visit_pass1 a (ln # p) = visit_pass1 (line_pass1 a ln) p"
  by (simp add: visit_pass1_def)

lemma visit_pass1_append: "visit_pass1 a (p @ q) = visit_pass1 (visit_pass1 a p) q"
  by (simp add: visit_pass1_def)

lemma visit_pass1_listing: "listing (visit_pass1 a p) = listing a"
  unfolding visit_pass1_def
  by (induction p arbitrary: a) (simp_all add: line_pass1_listing)

lemma visit_pass1_address: "address (visit_pass1 a p) = address a + int (count_stmts p)"
  unfolding visit_pass1_def count_stmts_def
  by (induction p arbitrary: a) (simp_all add: line_pass1_address)

text \<open>Pass 1 leaves the entry of a label that the program does not define.\<close>

lemma visit_pass1_undefined:
  "l \<notin> defined_labels p \<Longrightarrow> labels (visit_pass1 a p) l = labels a l"
proof (induction p arbitrary: a)
  case Nil
  then show ?case by (simp add: visit_pass1_def)
next
  case (Cons ln p)
  from Cons.prems have 1: "l \<notin> defined_labels p"
    and 2: "label_of ln = [] \<or> label_of ln \<noteq> l"
    by (auto simp: defined_labels_def)
  have "labels (visit_pass1 (line_pass1 a ln) p) l = labels (line_pass1 a ln) l"
    using Cons.IH [OF 1] .
  also have "\<dots> = labels a l"
    using 2 by (auto simp: line_pass1_labels)
  finally show ?case by (simp add: visit_pass1_Cons)
qed

text \<open>Pass 1 records, for a label, the address of the last line that carries it:
  the number of statements before that line.\<close>

lemma visit_pass1_last_definition:
  assumes "label_of ln \<noteq> []" and "list_all (\<lambda>ln'. label_of ln' \<noteq> label_of ln) post"
  shows "labels (visit_pass1 a (pre @ ln # post)) (label_of ln) =
           Some (address a + int (count_stmts pre))"
proof -
  have nd: "label_of ln \<notin> defined_labels post"
    using assms(2) by (auto simp: defined_labels_def list_all_iff)
  have "labels (visit_pass1 a (pre @ ln # post)) (label_of ln) =
          labels (line_pass1 (visit_pass1 a pre) ln) (label_of ln)"
    by (simp add: visit_pass1_append visit_pass1_Cons visit_pass1_undefined [OF nd])
  also have "\<dots> = Some (address (visit_pass1 a pre))"
    using assms(1) by (simp add: line_pass1_labels)
  finally show ?thesis by (simp add: visit_pass1_address)
qed

text \<open>Two states with one address and one listing, whose label tables agree outside
  the labels of the program, leave pass 1 as one state.\<close>

lemma visit_pass1_agree:
  "address a = address b \<Longrightarrow> listing a = listing b \<Longrightarrow>
   (\<forall>k. k \<notin> defined_labels p \<longrightarrow> labels a k = labels b k) \<Longrightarrow>
   visit_pass1 a p = visit_pass1 b p"
proof (induction p arbitrary: a b)
  case Nil
  then have "labels a = labels b" by (auto simp: defined_labels_def)
  with Nil show ?case by (simp add: visit_pass1_def)
next
  case (Cons ln p)
  have "visit_pass1 (line_pass1 a ln) p = visit_pass1 (line_pass1 b ln) p"
  proof (rule Cons.IH)
    show "address (line_pass1 a ln) = address (line_pass1 b ln)"
      using Cons.prems(1) by (simp add: line_pass1_address)
    show "listing (line_pass1 a ln) = listing (line_pass1 b ln)"
      using Cons.prems(2) by (simp add: line_pass1_listing)
    show "\<forall>k. k \<notin> defined_labels p \<longrightarrow> labels (line_pass1 a ln) k = labels (line_pass1 b ln) k"
      using Cons.prems(1,3) by (auto simp: line_pass1_labels defined_labels_def)
  qed
  then show ?case by (simp add: visit_pass1_Cons)
qed


section \<open>Registers\<close>

lemma digit_val_digit_char:
  assumes "d < 10"
  shows "digit_val (digit_char d) = Some (int d)"
proof -
  from assms have "d = 0 \<or> d = 1 \<or> d = 2 \<or> d = 3 \<or> d = 4 \<or> d = 5 \<or> d = 6 \<or> d = 7 \<or> d = 8 \<or> d = 9"
    by arith
  then show ?thesis
    by (elim disjE) (simp_all add: digit_val_def digit_char_def)
qed

lemma digit_val_range: "digit_val c = Some d \<Longrightarrow> 0 \<le> d \<and> d \<le> 9"
  by (auto simp: digit_val_def split: if_splits)

lemma digit_not_space: "digit_val c = Some d \<Longrightarrow> \<not> is_space c"
  by (auto simp: digit_val_def is_space_def split: if_splits)

lemma digit_not_sign: "digit_val c = Some d \<Longrightarrow> c \<noteq> CHR ''-'' \<and> c \<noteq> CHR ''+'' \<and> c \<noteq> CHR ''_''"
  by (auto simp: digit_val_def split: if_splits)

lemma py_int_digit:
  assumes "digit_val c = Some d"
  shows "py_int [c] = Inr d"
  using assms digit_not_space [OF assms] digit_not_sign [OF assms]
  by (simp add: py_int_def unsigned_value_def)

lemma reg_R_digit:
  assumes "a = CHR ''R'' \<or> a = CHR ''r''" and "digit_val b = Some d"
  shows "reg (Token ty [a, b] l c) = Inr d"
  using assms(1) py_int_digit [OF assms(2)]
  by (auto simp: reg_def match_pc_def)

lemma reg_PC:
  assumes "a = CHR ''P'' \<or> a = CHR ''p''" and "b = CHR ''C'' \<or> b = CHR ''c''"
  shows "reg (Token ty [a, b] l c) = Inr 9"
  using assms by (auto simp: reg_def match_pc_def)

lemma reg_REG:
  assumes "is_REG t"
  shows "\<exists>d. reg t = Inr d \<and> 0 \<le> d \<and> d \<le> 9"
proof -
  obtain ty v l c where t: "t = Token ty v l c" by (cases t)
  from assms t obtain a b where v: "v = [a, b]"
    and ab: "((a = CHR ''R'' \<or> a = CHR ''r'') \<and> digit_val b \<noteq> None) \<or>
             ((a = CHR ''P'' \<or> a = CHR ''p'') \<and> (b = CHR ''C'' \<or> b = CHR ''c''))"
    by (auto simp: is_REG_def is_REG_text_def split: list.splits)
  from ab show ?thesis
  proof
    assume r: "(a = CHR ''R'' \<or> a = CHR ''r'') \<and> digit_val b \<noteq> None"
    then obtain d where d: "digit_val b = Some d" by auto
    from r d have "reg t = Inr d" unfolding t v by (intro reg_R_digit) auto
    with digit_val_range [OF d] show ?thesis by auto
  next
    assume "(a = CHR ''P'' \<or> a = CHR ''p'') \<and> (b = CHR ''C'' \<or> b = CHR ''c'')"
    then have "reg t = Inr 9" unfolding t v by (intro reg_PC) auto
    then show ?thesis by auto
  qed
qed

text \<open>
  Claim C8. A register token \<open>R\<close> or \<open>r\<close> followed by the digit \<open>d\<close> encodes to
  \<open>d\<close>, for every \<open>d\<close> from 0 to 9; the alias \<open>PC\<close>, in any mix of upper and lower
  case, encodes to 9, which is also the encoding of \<open>R9\<close>.
\<close>

theorem reg_encoding:
  "(d < 10 \<longrightarrow>
      reg (Token ty [CHR ''R'', digit_char d] l c) = Inr (int d) \<and>
      reg (Token ty [CHR ''r'', digit_char d] l c) = Inr (int d)) \<and>
   ((a = CHR ''P'' \<or> a = CHR ''p'') \<and> (b = CHR ''C'' \<or> b = CHR ''c'') \<longrightarrow>
      reg (Token ty [a, b] l c) = Inr 9 \<and>
      reg (Token ty [a, b] l c) = reg (Token ty ''R9'' l c))"
proof (intro conjI impI)
  assume d: "d < 10"
  show "reg (Token ty [CHR ''R'', digit_char d] l c) = Inr (int d)"
    by (rule reg_R_digit [OF _ digit_val_digit_char [OF d]]) simp
  show "reg (Token ty [CHR ''r'', digit_char d] l c) = Inr (int d)"
    by (rule reg_R_digit [OF _ digit_val_digit_char [OF d]]) simp
next
  assume pc: "(a = CHR ''P'' \<or> a = CHR ''p'') \<and> (b = CHR ''C'' \<or> b = CHR ''c'')"
  then show 9: "reg (Token ty [a, b] l c) = Inr 9"
    by (intro reg_PC) auto
  have "reg (Token ty ''R9'' l c) = Inr 9"
    by (rule reg_R_digit) (simp_all add: digit_val_def)
  with 9 show "reg (Token ty [a, b] l c) = reg (Token ty ''R9'' l c)"
    by simp
qed

theorem reg_encoding_witness:
  "(7::nat) < 10 \<and> reg (tok ''REG'' ''r7'' 1 4) = Inr 7 \<and> reg (tok ''REG'' ''R7'' 1 4) = Inr 7 \<and>
   reg (tok ''REG'' ''pC'' 1 4) = Inr 9 \<and> reg (tok ''REG'' ''pC'' 1 4) = reg (tok ''REG'' ''R9'' 1 4)"
  using reg_encoding [of 7 "''REG''" "Some 1" "Some 4" "CHR ''p''" "CHR ''C''"]
  by (auto simp: tok_def digit_char_def)

section \<open>Register statements\<close>

lemma stmt_word_3addr:
  assumes "reg t0 = Inr dst" and "reg t1 = Inr src1" and "reg t2 = Inr src2"
    and "INSTRUCTIONS m = Some (base, word_3addr)"
  shows "stmt_word lbls (Tree m [t0, t1, t2]) = (Inr (base + (dst * 100 + src1 * 10 + src2)), [])"
  using assms by (simp add: stmt_word_def word_3addr_def reg_at_def op_at_def)

lemma stmt_word_2addr:
  assumes "reg t0 = Inr dst" and "reg t1 = Inr src1"
    and "INSTRUCTIONS m = Some (base, word_2addr)"
  shows "stmt_word lbls (Tree m [t0, t1]) = (Inr (base + (dst * 100 + src1 * 10)), [])"
  using assms by (simp add: stmt_word_def word_2addr_def reg_at_def op_at_def)

text \<open>
  Claim C1. For register tokens \<open>t0\<close>, \<open>t1\<close>, \<open>t2\<close> of the grammar there are digits
  \<open>dst\<close>, \<open>src1\<close>, \<open>src2\<close> between 0 and 9, the encodings of the three registers, such
  that the word of ADD, SUB, MUL, DIV, MOD on the three minus the base 0, 2000,
  3000, 4000, 5000 is \<open>dst*100 + src1*10 + src2\<close>, and the word of LD, NEG, ROUND,
  FLOOR on the first two minus the base 0, 1000, 6000, 8000 is \<open>dst*100 + src1*10\<close>;
  no diagnostic is printed.
\<close>

theorem register_statement_words:
  assumes "is_REG t0" and "is_REG t1" and "is_REG t2"
  shows "\<exists>dst src1 src2.
           reg t0 = Inr dst \<and> reg t1 = Inr src1 \<and> reg t2 = Inr src2 \<and>
           0 \<le> dst \<and> dst \<le> 9 \<and> 0 \<le> src1 \<and> src1 \<le> 9 \<and> 0 \<le> src2 \<and> src2 \<le> 9 \<and>
           (\<exists>w. stmt_word lbls (Tree ''add'' [t0, t1, t2]) = (Inr w, []) \<and>
                w - 0 = dst * 100 + src1 * 10 + src2) \<and>
           (\<exists>w. stmt_word lbls (Tree ''sub'' [t0, t1, t2]) = (Inr w, []) \<and>
                w - 2000 = dst * 100 + src1 * 10 + src2) \<and>
           (\<exists>w. stmt_word lbls (Tree ''mul'' [t0, t1, t2]) = (Inr w, []) \<and>
                w - 3000 = dst * 100 + src1 * 10 + src2) \<and>
           (\<exists>w. stmt_word lbls (Tree ''div'' [t0, t1, t2]) = (Inr w, []) \<and>
                w - 4000 = dst * 100 + src1 * 10 + src2) \<and>
           (\<exists>w. stmt_word lbls (Tree ''mod'' [t0, t1, t2]) = (Inr w, []) \<and>
                w - 5000 = dst * 100 + src1 * 10 + src2) \<and>
           (\<exists>w. stmt_word lbls (Tree ''ld'' [t0, t1]) = (Inr w, []) \<and>
                w - 0 = dst * 100 + src1 * 10) \<and>
           (\<exists>w. stmt_word lbls (Tree ''neg'' [t0, t1]) = (Inr w, []) \<and>
                w - 1000 = dst * 100 + src1 * 10) \<and>
           (\<exists>w. stmt_word lbls (Tree ''round'' [t0, t1]) = (Inr w, []) \<and>
                w - 6000 = dst * 100 + src1 * 10) \<and>
           (\<exists>w. stmt_word lbls (Tree ''floor'' [t0, t1]) = (Inr w, []) \<and>
                w - 8000 = dst * 100 + src1 * 10)"
proof -
  from reg_REG [OF assms(1)] obtain dst where 0: "reg t0 = Inr dst" "0 \<le> dst" "dst \<le> 9"
    by auto
  from reg_REG [OF assms(2)] obtain src1 where 1: "reg t1 = Inr src1" "0 \<le> src1" "src1 \<le> 9"
    by auto
  from reg_REG [OF assms(3)] obtain src2 where 2: "reg t2 = Inr src2" "0 \<le> src2" "src2 \<le> 9"
    by auto
  note three = stmt_word_3addr [OF 0(1) 1(1) 2(1), of _ _ lbls]
  note two = stmt_word_2addr [OF 0(1) 1(1), of _ _ lbls]
  have add: "stmt_word lbls (Tree ''add'' [t0, t1, t2]) = (Inr (0 + (dst * 100 + src1 * 10 + src2)), [])"
    by (rule three) (simp add: INSTRUCTIONS_def)
  have sub: "stmt_word lbls (Tree ''sub'' [t0, t1, t2]) = (Inr (2000 + (dst * 100 + src1 * 10 + src2)), [])"
    by (rule three) (simp add: INSTRUCTIONS_def)
  have mul: "stmt_word lbls (Tree ''mul'' [t0, t1, t2]) = (Inr (3000 + (dst * 100 + src1 * 10 + src2)), [])"
    by (rule three) (simp add: INSTRUCTIONS_def)
  have div: "stmt_word lbls (Tree ''div'' [t0, t1, t2]) = (Inr (4000 + (dst * 100 + src1 * 10 + src2)), [])"
    by (rule three) (simp add: INSTRUCTIONS_def)
  have mod: "stmt_word lbls (Tree ''mod'' [t0, t1, t2]) = (Inr (5000 + (dst * 100 + src1 * 10 + src2)), [])"
    by (rule three) (simp add: INSTRUCTIONS_def)
  have ld: "stmt_word lbls (Tree ''ld'' [t0, t1]) = (Inr (0 + (dst * 100 + src1 * 10)), [])"
    by (rule two) (simp add: INSTRUCTIONS_def)
  have neg: "stmt_word lbls (Tree ''neg'' [t0, t1]) = (Inr (1000 + (dst * 100 + src1 * 10)), [])"
    by (rule two) (simp add: INSTRUCTIONS_def)
  have round: "stmt_word lbls (Tree ''round'' [t0, t1]) = (Inr (6000 + (dst * 100 + src1 * 10)), [])"
    by (rule two) (simp add: INSTRUCTIONS_def)
  have floor: "stmt_word lbls (Tree ''floor'' [t0, t1]) = (Inr (8000 + (dst * 100 + src1 * 10)), [])"
    by (rule two) (simp add: INSTRUCTIONS_def)
  show ?thesis
    apply (rule exI [of _ dst], rule exI [of _ src1], rule exI [of _ src2])
    apply (simp only: 0 1 2 add sub mul div mod ld neg round floor)
    apply simp
    done
qed

theorem register_statement_words_witness:
  "is_REG (tok ''REG'' ''R1'' 1 5) \<and> is_REG (tok ''REG'' ''r2'' 1 8) \<and>
   is_REG (tok ''REG'' ''PC'' 1 11) \<and>
   stmt_word Map.empty
     (Tree ''sub'' [tok ''REG'' ''R1'' 1 5, tok ''REG'' ''r2'' 1 8, tok ''REG'' ''PC'' 1 11]) =
     (Inr 2129, []) \<and>
   stmt_word Map.empty (Tree ''floor'' [tok ''REG'' ''R1'' 1 5, tok ''REG'' ''r2'' 1 8]) =
     (Inr 8120, [])"
proof -
  have r: "is_REG (tok ''REG'' ''R1'' 1 5)" "is_REG (tok ''REG'' ''r2'' 1 8)"
    "is_REG (tok ''REG'' ''PC'' 1 11)"
    by (simp_all add: grammar_simps tok_def digit_val_def)
  have v: "reg (tok ''REG'' ''R1'' 1 5) = Inr 1" "reg (tok ''REG'' ''r2'' 1 8) = Inr 2"
    "reg (tok ''REG'' ''PC'' 1 11) = Inr 9"
    by (simp_all add: reg_def match_pc_def tok_def prim_simps)
  from register_statement_words [OF r, of Map.empty] v r show ?thesis
    by auto
qed


section \<open>Literals and label references\<close>



lemma clamp_literal_Some: "\<exists>v d. clamp_literal t val = (Inr (Some v), d)"
  by (simp add: clamp_literal_def)

lemma imm_literal:
  "ttype t = ''IMMINT'' \<Longrightarrow> py_int (drop 1 (tvalue t)) = Inr v \<Longrightarrow>
   imm lbls t = clamp_literal t v"
  by (simp add: imm_def)

lemma target_literal:
  "ttype t = ''INT'' \<Longrightarrow> py_int (tvalue t) = Inr v \<Longrightarrow> target lbls t = clamp_literal t v"
  by (simp add: target_def)


lemma target_known_label:
  "ttype t = ''LABEL'' \<Longrightarrow> lbls (tvalue t) = Some n \<Longrightarrow> target lbls t = (Inr (Some n), [])"
  by (simp add: target_def)







text \<open>
  Claim C2, evaluated on \<^verbatim>\<open>NEG r0,r0\<close>, \<^verbatim>\<open>x: LD r1,#x\<close>. Pass 1 records the label
  \<open>x\<close> at address 1, yet the immediate \<open>#x\<close> is looked up with its hash sign, is
  not found, and the request prints the diagnostic of an unknown label and lists
  the word 7100 where the claim promises 7101 and no diagnostic.
\<close>

theorem immediate_label_lookup_keeps_hash:
  "labels (visit_pass1 (clear new_assembler\<lparr>address := 0\<rparr>) prog_imm_label) ''x'' = Some 1 \<and>
   raised (request new_assembler prog_imm_label) = None \<and>
   stderr (request new_assembler prog_imm_label) = [''2:10 Error: unknown label #x''] \<and>
   listing (state (request new_assembler prog_imm_label)) =
     header @
     ''00 1000           neg   r0, r0         '' @ [NL] @
     ''01 7100 x         ldi   r1, #x         '' @ [NL]"
proof -
  have 1: "labels (visit_pass1 (clear new_assembler\<lparr>address := 0\<rparr>) prog_imm_label) ''x'' = Some 1"
    by (simp add: prog_imm_label_def pass_simps)
  have 2: "raised (request new_assembler prog_imm_label) = None"
    by (simp add: prog_imm_label_def pass_simps encode_simps prim_simps)
  have 3: "stderr (request new_assembler prog_imm_label) = [''2:10 Error: unknown label #x'']"
    by (simp add: prog_imm_label_def pass_simps encode_simps prim_simps)
  have 4: "listing (state (request new_assembler prog_imm_label)) =
     header @
     ''00 1000           neg   r0, r0         '' @ [NL] @
     ''01 7100 x         ldi   r1, #x         '' @ [NL]"
    by (simp add: prog_imm_label_def pass_simps encode_simps prim_simps)
  show ?thesis
    by (intro conjI 1 2 3 4)
qed

section \<open>Jumps to labels\<close>

lemma stmt_word_jp_label:
  assumes "lbls name = Some n"
  shows "stmt_word lbls (Tree ''jp'' [Token ''LABEL'' name l c]) = (Inr (7900 + n), [])"
  using assms
  by (simp add: stmt_word_def INSTRUCTIONS_def word_jump_def op_at_def target_def)

text \<open>
  Claim C3. When a line of the program carries a label and no later line carries
  the same label, pass 1 records for it the number of statements before that line,
  and a JP statement with that bare label as its target, wherever it stands, has
  the word 7900 plus that address and prints no diagnostic. In \<^verbatim>\<open>start: JP end\<close>,
  \<^verbatim>\<open>mid: LD r1,#5\<close>, \<^verbatim>\<open>end: LD r2,#1\<close> the jump at address 0 is listed as 7902. In
  the default sample program the five statements are listed at the addresses 00 to
  04 and the jump as 7900.
\<close>

theorem jump_to_label:
  "(label_of ln \<noteq> [] \<and> list_all (\<lambda>ln'. label_of ln' \<noteq> label_of ln) post \<longrightarrow>
      labels (visit_pass1 (a\<lparr>address := 0\<rparr>) (pre @ ln # post)) (label_of ln) =
        Some (int (count_stmts pre)) \<and>
      stmt_word (labels (visit_pass1 (a\<lparr>address := 0\<rparr>) (pre @ ln # post)))
        (Tree ''jp'' [Token ''LABEL'' (label_of ln) l c]) =
        (Inr (7900 + int (count_stmts pre)), [])) \<and>
   raised (request new_assembler prog_forward) = None \<and>
   stderr (request new_assembler prog_forward) = [] \<and>
   listing (state (request new_assembler prog_forward)) =
     header @
     ''00 7902 start     jp    end            '' @ [NL] @
     ''01 7105 mid       ldi   r1, #5         '' @ [NL] @
     ''02 7201 end       ldi   r2, #1         '' @ [NL] \<and>
   raised (request new_assembler defaulttext) = None \<and>
   stderr (request new_assembler defaulttext) = [] \<and>
   listing (state (request new_assembler defaulttext)) =
     header @
     ''00 7310 loop      ldi   r3, #10        ; divisor'' @ [NL] @
     ''01 4123           div   r1, r2, r3     ; r1 = r2 / 10'' @ [NL] @
     ''02 5223           mod   r2, r2, r3     ; r2 = r2 % 10'' @ [NL] @
     ''03 8110           floor r1, r1         ; r1 = '' @ [CHR 0xE2, CHR 0x8C, CHR 0x8A] @
       ''r2 / 10'' @ [CHR 0xE2, CHR 0x8C, CHR 0x8B] @ [NL] @
     ''04 7900           jp    loop           '' @ [NL]"
proof -
  have A: "label_of ln \<noteq> [] \<and> list_all (\<lambda>ln'. label_of ln' \<noteq> label_of ln) post \<longrightarrow>
      labels (visit_pass1 (a\<lparr>address := 0\<rparr>) (pre @ ln # post)) (label_of ln) =
        Some (int (count_stmts pre)) \<and>
      stmt_word (labels (visit_pass1 (a\<lparr>address := 0\<rparr>) (pre @ ln # post)))
        (Tree ''jp'' [Token ''LABEL'' (label_of ln) l c]) =
        (Inr (7900 + int (count_stmts pre)), [])"
  proof
    assume h: "label_of ln \<noteq> [] \<and> list_all (\<lambda>ln'. label_of ln' \<noteq> label_of ln) post"
    then have 1: "labels (visit_pass1 (a\<lparr>address := 0\<rparr>) (pre @ ln # post)) (label_of ln) =
        Some (int (count_stmts pre))"
      using visit_pass1_last_definition [of ln post "a\<lparr>address := 0\<rparr>" pre] by simp
    from 1 stmt_word_jp_label
      [of "labels (visit_pass1 (a\<lparr>address := 0\<rparr>) (pre @ ln # post))" "label_of ln", OF 1]
    show "labels (visit_pass1 (a\<lparr>address := 0\<rparr>) (pre @ ln # post)) (label_of ln) =
        Some (int (count_stmts pre)) \<and>
      stmt_word (labels (visit_pass1 (a\<lparr>address := 0\<rparr>) (pre @ ln # post)))
        (Tree ''jp'' [Token ''LABEL'' (label_of ln) l c]) =
        (Inr (7900 + int (count_stmts pre)), [])"
      by simp
  qed
  have B1: "raised (request new_assembler prog_forward) = None"
    by (simp add: prog_forward_def pass_simps encode_simps prim_simps)
  have B2: "stderr (request new_assembler prog_forward) = []"
    by (simp add: prog_forward_def pass_simps encode_simps prim_simps)
  have B3: "listing (state (request new_assembler prog_forward)) =
     header @
     ''00 7902 start     jp    end            '' @ [NL] @
     ''01 7105 mid       ldi   r1, #5         '' @ [NL] @
     ''02 7201 end       ldi   r2, #1         '' @ [NL]"
    by (simp add: prog_forward_def pass_simps encode_simps prim_simps)
  have C1: "raised (request new_assembler defaulttext) = None"
    by (simp add: defaulttext_def pass_simps encode_simps prim_simps)
  have C2: "stderr (request new_assembler defaulttext) = []"
    by (simp add: defaulttext_def pass_simps encode_simps prim_simps)
  have C3: "listing (state (request new_assembler defaulttext)) =
     header @
     ''00 7310 loop      ldi   r3, #10        ; divisor'' @ [NL] @
     ''01 4123           div   r1, r2, r3     ; r1 = r2 / 10'' @ [NL] @
     ''02 5223           mod   r2, r2, r3     ; r2 = r2 % 10'' @ [NL] @
     ''03 8110           floor r1, r1         ; r1 = '' @ [CHR 0xE2, CHR 0x8C, CHR 0x8A] @
       ''r2 / 10'' @ [CHR 0xE2, CHR 0x8C, CHR 0x8B] @ [NL] @
     ''04 7900           jp    loop           '' @ [NL]"
    by (simp add: defaulttext_def pass_simps encode_simps prim_simps)
  show ?thesis
    by (intro conjI A B1 B2 B3 C1 C2 C3)
qed


theorem jump_to_label_witness:
  "label_of (mk_line (Some (tok ''LABELC'' ''end:'' 3 2))
      (Some (Tree ''ldi'' [tok ''REG'' ''r2'' 3 10, tok ''IMMINT'' ''#1'' 3 13])) None) = ''end'' \<and>
   list_all (\<lambda>ln'. label_of ln' \<noteq> ''end'') [] \<and>
   labels (visit_pass1 (new_assembler\<lparr>address := 0\<rparr>) prog_forward) ''end'' = Some 2 \<and>
   stmt_word (labels (visit_pass1 (new_assembler\<lparr>address := 0\<rparr>) prog_forward))
     (Tree ''jp'' [tok ''LABEL'' ''end'' 1 11]) = (Inr 7902, [])"
proof -
  define l1 where "l1 = mk_line (Some (tok ''LABELC'' ''start:'' 1 1))
        (Some (Tree ''jp'' [tok ''LABEL'' ''end'' 1 11])) None"
  define l2 where "l2 = mk_line (Some (tok ''LABELC'' ''mid:'' 2 2))
        (Some (Tree ''ldi'' [tok ''REG'' ''r1'' 2 10, tok ''IMMINT'' ''#5'' 2 13])) None"
  define l3 where "l3 = mk_line (Some (tok ''LABELC'' ''end:'' 3 2))
        (Some (Tree ''ldi'' [tok ''REG'' ''r2'' 3 10, tok ''IMMINT'' ''#1'' 3 13])) None"
  have p: "prog_forward = [l1, l2] @ l3 # []"
    by (simp add: prog_forward_def l1_def l2_def l3_def)
  have l: "label_of l3 = ''end''"
    by (simp add: l3_def label_of_def mk_line_def tok_def)
  have n: "count_stmts [l1, l2] = 2"
    by (simp add: count_stmts_def l1_def l2_def mk_line_def)
  have h: "label_of l3 \<noteq> [] \<and> list_all (\<lambda>ln'. label_of ln' \<noteq> label_of l3) []"
    by (simp add: l)
  from jump_to_label [of l3 "[]" new_assembler "[l1, l2]" "Some 1" "Some 11"] h
  have "labels (visit_pass1 (new_assembler\<lparr>address := 0\<rparr>) ([l1, l2] @ l3 # [])) (label_of l3) =
          Some (int (count_stmts [l1, l2])) \<and>
        stmt_word (labels (visit_pass1 (new_assembler\<lparr>address := 0\<rparr>) ([l1, l2] @ l3 # [])))
          (Tree ''jp'' [Token ''LABEL'' (label_of l3) (Some 1) (Some 11)]) =
          (Inr (7900 + int (count_stmts [l1, l2])), [])"
    by blast
  then show ?thesis
    unfolding p [symmetric] l n l3_def [symmetric] by (simp add: tok_def l)
qed

section \<open>Pass 2\<close>

lemma finish_line_labels: "labels (state (finish_line a ln w i ops d)) = labels a"
  by (simp add: finish_line_def Let_def split: option.splits)

lemma line_pass2_labels: "labels (state (line_pass2 a ln)) = labels a"
  by (simp add: line_pass2_def finish_line_labels split: option.splits prod.splits sum.splits)

lemma visit_pass2_labels: "labels (state (visit_pass2 a p)) = labels a"
proof (induction p arbitrary: a)
  case Nil
  then show ?case by simp
next
  case (Cons ln p)
  show ?case
  proof (cases "raised (line_pass2 a ln)")
    case None
    then show ?thesis
      by (simp add: Let_def Cons.IH line_pass2_labels)
  next
    case (Some e)
    then show ?thesis
      by (simp add: Let_def line_pass2_labels)
  qed
qed

lemma request_labels:
  "labels (state (request a p)) = labels (visit_pass1 (clear a\<lparr>address := 0\<rparr>) p)"
  by (simp add: request_def assemble_def Let_def visit_pass2_labels)

text \<open>
  Claim C5, evaluated on the grammatical program \<^verbatim>\<open>x: NEG r0,r0\<close>, \<^verbatim>\<open>x: NEG r0,r0\<close>.
  Pass 1 overwrites the address 0 of \<open>x\<close> with the address 1 of its second line;
  pass 2 lists the first line at address 0 and then fails the assertion that the
  claim says cannot fail.
\<close>

theorem repeated_label_fails_assertion:
  "wf_program prog_twice \<and>
   labels (visit_pass1 (clear new_assembler\<lparr>address := 0\<rparr>) prog_twice) ''x'' = Some 1 \<and>
   raised (request new_assembler prog_twice) = Some AssertionError \<and>
   listing (state (request new_assembler prog_twice)) =
     header @ ''00 1000 x         neg   r0, r0         '' @ [NL]"
proof -
  have 1: "wf_program prog_twice"
    by (simp add: prog_twice_def mk_line_def tok_def grammar_simps digit_val_def)
  have 2: "labels (visit_pass1 (clear new_assembler\<lparr>address := 0\<rparr>) prog_twice) ''x'' = Some 1"
    by (simp add: prog_twice_def pass_simps)
  have 3: "raised (request new_assembler prog_twice) = Some AssertionError"
    by (simp add: prog_twice_def pass_simps encode_simps prim_simps)
  have 4: "listing (state (request new_assembler prog_twice)) =
     header @ ''00 1000 x         neg   r0, r0         '' @ [NL]"
    by (simp add: prog_twice_def pass_simps encode_simps prim_simps)
  show ?thesis
    by (intro conjI 1 2 3 4)
qed

section \<open>Requests on one assembler\<close>

text \<open>
  Claim C6 as stated fails: the label table is created by the constructor and
  never emptied, \<open>clear\<close> resets the listing only. After a request that defined \<open>x\<close>
  at address 1, the request \<^verbatim>\<open>JP x\<close> finds \<open>x\<close>, prints no diagnostic and lists
  7901; on a new assembler the same text prints the diagnostic of an unknown label
  and lists 7900.
\<close>

theorem stale_label_is_known:
  "stderr (request new_assembler prog_jp_x) =
     [''1:4 Error: unknown label '' @ [QUOTE] @ ''x'' @ [QUOTE]] \<and>
   listing (state (request new_assembler prog_jp_x)) =
     header @ ''00 7900           jp    x              '' @ [NL] \<and>
   stderr (request (state (request new_assembler prog_defines_x)) prog_jp_x) = [] \<and>
   listing (state (request (state (request new_assembler prog_defines_x)) prog_jp_x)) =
     header @ ''00 7901           jp    x              '' @ [NL]"
proof -
  have 1: "stderr (request new_assembler prog_jp_x) =
     [''1:4 Error: unknown label '' @ [QUOTE] @ ''x'' @ [QUOTE]]"
    by (simp add: prog_jp_x_def pass_simps encode_simps prim_simps)
  have 2: "listing (state (request new_assembler prog_jp_x)) =
     header @ ''00 7900           jp    x              '' @ [NL]"
    by (simp add: prog_jp_x_def pass_simps encode_simps prim_simps)
  have 3: "stderr (request (state (request new_assembler prog_defines_x)) prog_jp_x) = []"
    by (simp add: prog_jp_x_def prog_defines_x_def pass_simps encode_simps prim_simps)
  have 4: "listing (state (request (state (request new_assembler prog_defines_x)) prog_jp_x)) =
     header @ ''00 7901           jp    x              '' @ [NL]"
    by (simp add: prog_jp_x_def prog_defines_x_def pass_simps encode_simps prim_simps)
  show ?thesis
    by (intro conjI 1 2 3 4)
qed

text \<open>
  Claim C6 as amended. After \<open>clear\<close> and \<open>assemble\<close> of a text, the whole outcome
  (listing, printed output, diagnostics, exception) depends only on the text and
  on the entries that earlier requests left in the label table for labels the
  text does not define itself: two assemblers that agree on those entries give one
  outcome, whatever their listings and address counters were.
\<close>

theorem request_depends_on_text_and_foreign_labels:
  assumes "\<forall>k. k \<notin> defined_labels p \<longrightarrow> labels a k = labels b k"
  shows "request a p = request b p"
proof -
  have "visit_pass1 (clear a\<lparr>address := 0\<rparr>) p = visit_pass1 (clear b\<lparr>address := 0\<rparr>) p"
    using assms by (intro visit_pass1_agree) (simp_all add: clear_def)
  then show ?thesis
    by (simp add: request_def assemble_def)
qed

theorem request_depends_on_text_and_foreign_labels_witness:
  "defined_labels prog_imm_label = {''x''} \<and>
   dom (labels (state (request new_assembler prog_defines_x))) = {''x''} \<and>
   dom (labels new_assembler) = {} \<and>
   request (state (request new_assembler prog_defines_x)) prog_imm_label =
     request new_assembler prog_imm_label"
proof -
  have d: "defined_labels prog_imm_label = {''x''}"
    by (auto simp: defined_labels_def prog_imm_label_def label_of_def mk_line_def tok_def)
  have l: "labels (state (request new_assembler prog_defines_x)) = [''x'' \<mapsto> 1]"
    unfolding request_labels by (simp add: prog_defines_x_def pass_simps)
  have n: "labels new_assembler = Map.empty"
    by (simp add: new_assembler_def clear_def)
  have "\<forall>k. k \<notin> defined_labels prog_imm_label \<longrightarrow>
          labels (state (request new_assembler prog_defines_x)) k = labels new_assembler k"
    by (simp add: d l n)
  from request_depends_on_text_and_foreign_labels [OF this] d l n show ?thesis
    by simp
qed

text \<open>
  Claim C7. A request on an assembler, followed by a request of the same text on
  the state the first one left, gives the same outcome: the same listing, the same
  diagnostic lines in the same order, the same printed output, and the same
  exception if there is one.
\<close>

theorem request_twice:
  "listing (state (request (state (request a p)) p)) = listing (state (request a p)) \<and>
   stderr (request (state (request a p)) p) = stderr (request a p) \<and>
   request (state (request a p)) p = request a p"
proof -
  have "visit_pass1 (clear (state (request a p))\<lparr>address := 0\<rparr>) p =
        visit_pass1 (clear a\<lparr>address := 0\<rparr>) p"
  proof (rule visit_pass1_agree)
    show "\<forall>k. k \<notin> defined_labels p \<longrightarrow>
            labels (clear (state (request a p))\<lparr>address := 0\<rparr>) k =
            labels (clear a\<lparr>address := 0\<rparr>) k"
      by (simp add: clear_def request_labels visit_pass1_undefined)
  qed (simp_all add: clear_def)
  then have "request (state (request a p)) p = request a p"
    by (simp add: request_def assemble_def)
  then show ?thesis
    by simp
qed


section \<open>Lines without a statement\<close>

lemma wf_line_label_present:
  assumes "wf_line ln"
  shows "label_of ln \<noteq> [] \<longleftrightarrow> line_label ln \<noteq> None"
proof (cases "line_label ln")
  case None
  then show ?thesis by (simp add: label_of_def)
next
  case (Some t)
  with assms have "is_LABELC t" by (simp add: wf_line_def)
  then have "tvalue t \<noteq> []" and "butlast (tvalue t) \<noteq> []"
    by (auto simp: is_LABELC_def is_CNAME_def split: list.splits)
  with Some show ?thesis by (simp add: label_of_def)
qed

lemma wf_line_comment_present:
  assumes "wf_line ln"
  shows "comment_of ln \<noteq> [] \<longleftrightarrow> line_comment ln \<noteq> None"
proof (cases "line_comment ln")
  case None
  then show ?thesis by (simp add: comment_of_def)
next
  case (Some t)
  with assms have "is_COMMENT t" by (simp add: wf_line_def)
  then have "tvalue t \<noteq> []"
    by (auto simp: is_COMMENT_def split: list.splits)
  with Some show ?thesis by (simp add: comment_of_def)
qed

lemma listing_row_no_stmt:
  "listing_row addr None label [] [Token [] [] None None] cmt =
     rjust CHR ''0'' 2 (str_int addr) @ '' '' @ replicate 4 CHR '' '' @ '' '' @ ljust 8 label @
     ''  '' @ replicate 20 CHR '' '' @ '' '' @ cmt @ [NL]"
  unfolding listing_row_def Let_def fmt_word_def
  by (simp add: ljust_def) (simp add: replicate_numeral)

text \<open>
  Claim C9 as stated fails on the address field: the row of a line without a
  statement starts with the current value of the address counter, here \<open>00\<close>, not
  with an empty field.
\<close>

theorem comment_line_lists_address:
  "wf_line line_note \<and> line_stmt line_note = None \<and>
   take 2 (stdout (line_pass2 (new_assembler\<lparr>address := 0\<rparr>) line_note)) = ''00'' \<and>
   listing (state (request new_assembler [line_note])) =
     header @ ''00                                     ; note'' @ [NL]"
proof -
  have 1: "wf_line line_note"
    by (simp add: line_note_def mk_line_def tok_def grammar_simps NL_def)
  have 2: "line_stmt line_note = None"
    by (simp add: line_note_def mk_line_def)
  have 3: "take 2 (stdout (line_pass2 (new_assembler\<lparr>address := 0\<rparr>) line_note)) = ''00''"
    by (simp add: line_note_def pass_simps prim_simps)
  have 4: "listing (state (request new_assembler [line_note])) =
     header @ ''00                                     ; note'' @ [NL]"
    by (simp add: line_note_def pass_simps prim_simps)
  show ?thesis
    by (intro conjI 1 2 3 4)
qed

text \<open>
  Claim C9 as amended. For a line of the grammar without a statement: if it has a
  label or a comment, one row is printed and appended to the listing; the row
  holds the current address counter in two digits, a blank word field, the label,
  blank mnemonic and operand fields, and the comment. If it has neither, nothing
  is printed or appended. In both cases the address counter stays as it was and no
  diagnostic is printed.
\<close>

theorem statementless_line:
  assumes "wf_line ln" and "line_stmt ln = None"
  shows "(line_label ln \<noteq> None \<or> line_comment ln \<noteq> None \<longrightarrow>
            stdout (line_pass2 a ln) =
              rjust CHR ''0'' 2 (str_int (address a)) @ '' '' @ replicate 4 CHR '' '' @ '' '' @
              ljust 8 (label_of ln) @ ''  '' @ replicate 20 CHR '' '' @ '' '' @
              comment_of ln @ [NL] \<and>
            listing (state (line_pass2 a ln)) = listing a @ stdout (line_pass2 a ln)) \<and>
         (line_label ln = None \<and> line_comment ln = None \<longrightarrow>
            stdout (line_pass2 a ln) = [] \<and> raised (line_pass2 a ln) = None \<and>
            state (line_pass2 a ln) = a) \<and>
         address (state (line_pass2 a ln)) = address a \<and>
         stderr (line_pass2 a ln) = []"
proof -
  note present = wf_line_label_present [OF assms(1)] wf_line_comment_present [OF assms(1)]
  have lp: "line_pass2 a ln = finish_line a ln None [] [Token [] [] None None] []"
    using assms(2) by (simp add: line_pass2_def)
  have A: "address (state (line_pass2 a ln)) = address a"
    unfolding lp using assms(2) by (simp add: finish_line_def Let_def split: option.splits)
  have B: "stderr (line_pass2 a ln) = []"
    unfolding lp by (simp add: finish_line_def Let_def split: option.splits)
  have C: "line_label ln \<noteq> None \<or> line_comment ln \<noteq> None \<longrightarrow>
            stdout (line_pass2 a ln) =
              rjust CHR ''0'' 2 (str_int (address a)) @ '' '' @ replicate 4 CHR '' '' @ '' '' @
              ljust 8 (label_of ln) @ ''  '' @ replicate 20 CHR '' '' @ '' '' @
              comment_of ln @ [NL] \<and>
            listing (state (line_pass2 a ln)) = listing a @ stdout (line_pass2 a ln)"
  proof
    assume "line_label ln \<noteq> None \<or> line_comment ln \<noteq> None"
    with present have e: "label_of ln \<noteq> [] \<or> comment_of ln \<noteq> []" by simp
    then show "stdout (line_pass2 a ln) =
              rjust CHR ''0'' 2 (str_int (address a)) @ '' '' @ replicate 4 CHR '' '' @ '' '' @
              ljust 8 (label_of ln) @ ''  '' @ replicate 20 CHR '' '' @ '' '' @
              comment_of ln @ [NL] \<and>
            listing (state (line_pass2 a ln)) = listing a @ stdout (line_pass2 a ln)"
      unfolding lp finish_line_def Let_def listing_row_no_stmt
      by (auto split: option.splits)
  qed
  have D: "line_label ln = None \<and> line_comment ln = None \<longrightarrow>
            stdout (line_pass2 a ln) = [] \<and> raised (line_pass2 a ln) = None \<and>
            state (line_pass2 a ln) = a"
  proof
    assume "line_label ln = None \<and> line_comment ln = None"
    with present have e: "label_of ln = []" "comment_of ln = []" by simp_all
    show "stdout (line_pass2 a ln) = [] \<and> raised (line_pass2 a ln) = None \<and>
          state (line_pass2 a ln) = a"
      unfolding lp using e assms(2) by (simp add: finish_line_def Let_def)
  qed
  show ?thesis
    by (intro conjI C D A B)
qed

theorem statementless_line_witness:
  "wf_line line_note \<and> line_stmt line_note = None \<and> line_comment line_note \<noteq> None \<and>
   stdout (line_pass2 new_assembler line_note) =
     ''00                                     ; note'' @ [NL] \<and>
   listing (state (line_pass2 new_assembler line_note)) =
     header @ ''00                                     ; note'' @ [NL] \<and>
   wf_line (mk_line None None None) \<and>
   stdout (line_pass2 new_assembler (mk_line None None None)) = [] \<and>
   state (line_pass2 new_assembler (mk_line None None None)) = new_assembler"
proof -
  have n: "wf_line line_note" "line_stmt line_note = None" "line_comment line_note \<noteq> None"
    by (simp_all add: line_note_def mk_line_def tok_def grammar_simps NL_def)
  have b: "wf_line (mk_line None None None)" "line_stmt (mk_line None None None) = None"
    "line_label (mk_line None None None) = None \<and> line_comment (mk_line None None None) = None"
    by (simp_all add: mk_line_def wf_line_def)
  have r: "rjust CHR ''0'' 2 (str_int (address new_assembler)) @ '' '' @ replicate 4 CHR '' '' @
      '' '' @ ljust 8 (label_of line_note) @ ''  '' @ replicate 20 CHR '' '' @ '' '' @
      comment_of line_note @ [NL] = ''00                                     ; note'' @ [NL]"
    by (simp add: line_note_def pass_simps prim_simps)
  have l: "listing new_assembler = header"
    by (simp add: new_assembler_def clear_def)
  from statementless_line [OF n(1,2), of new_assembler] n(3)
  have 1: "stdout (line_pass2 new_assembler line_note) =
      ''00                                     ; note'' @ [NL]"
    and 2: "listing (state (line_pass2 new_assembler line_note)) =
      listing new_assembler @ stdout (line_pass2 new_assembler line_note)"
    unfolding r by simp_all
  from statementless_line [OF b(1,2), of new_assembler] b(3)
  have 3: "stdout (line_pass2 new_assembler (mk_line None None None)) = []"
    and 4: "state (line_pass2 new_assembler (mk_line None None None)) = new_assembler"
    by simp_all
  from n b(1) 1 2 3 4 l show ?thesis
    by simp
qed


section \<open>Statements of the grammar always have a word\<close>

lemma digits_value_digits:
  "list_all (\<lambda>c. digit_val c \<noteq> None) s \<Longrightarrow> \<exists>v. digits_value acc s = Some v"
  by (induction s arbitrary: acc) auto

lemma digit_not_space': "digit_val c \<noteq> None \<Longrightarrow> \<not> is_space c"
  using digit_not_space by auto

lemma strip_INT:
  assumes "is_INT s"
  shows "rev (dropWhile is_space (rev (dropWhile is_space s))) = s"
proof -
  from assms have ne: "s \<noteq> []" and all: "\<forall>c \<in> set s. digit_val c \<noteq> None"
    by (auto simp: is_INT_def list_all_iff)
  from ne have "hd s \<in> set s" and "last s \<in> set s"
    by simp_all
  with all have "\<not> is_space (hd s)" and "\<not> is_space (last s)"
    by (simp_all add: digit_not_space')
  with ne have 1: "dropWhile is_space s = s" and 2: "dropWhile is_space (rev s) = rev s"
    by (simp_all add: dropWhile_eq_self_iff hd_rev)
  show ?thesis by (simp add: 1 2)
qed

lemma py_int_INT:
  assumes "is_INT s"
  shows "\<exists>v. py_int s = Inr v"
proof -
  from assms obtain c cs where s: "s = c # cs" and c: "digit_val c \<noteq> None"
    and all: "list_all (\<lambda>c. digit_val c \<noteq> None) s"
    by (cases s) (auto simp: is_INT_def)
  from c obtain d where d: "digit_val c = Some d" by auto
  from digit_not_sign [OF d] have sign: "c \<noteq> CHR ''-''" "c \<noteq> CHR ''+''" by simp_all
  from digits_value_digits [OF all] obtain v where v: "digits_value 0 s = Some v" by blast
  have "unsigned_value s = Some v"
    using v c by (simp add: unsigned_value_def s)
  then show ?thesis
    using sign by (simp add: py_int_def strip_INT [OF assms] Let_def) (simp add: s sign)
qed

lemma imm_grammar:
  assumes "is_IMMINT t \<or> is_IMMLABEL t"
  shows "\<exists>v d. imm lbls t = (Inr (Some v), d)"
  using assms
proof
  assume "is_IMMINT t"
  then obtain r where ty: "ttype t = ''IMMINT''" and v: "tvalue t = CHR ''#'' # r" and r: "is_INT r"
    by (auto simp: is_IMMINT_def split: list.splits)
  from py_int_INT [OF r] obtain n where "py_int (drop 1 (tvalue t)) = Inr n"
    by (auto simp: v)
  then have "imm lbls t = clamp_literal t n"
    using ty by (simp add: imm_literal)
  with clamp_literal_Some [of t n] show ?thesis by simp
next
  assume "is_IMMLABEL t"
  then have "ttype t = ''IMMLABEL''" by (simp add: is_IMMLABEL_def)
  then show ?thesis
    by (cases "lbls (tvalue t)") (simp_all add: imm_def)
qed

lemma target_grammar:
  assumes "is_LABEL t \<or> is_INT_token t"
  shows "\<exists>v d. target lbls t = (Inr (Some v), d)"
  using assms
proof
  assume "is_LABEL t"
  then have "ttype t = ''LABEL''" by (simp add: is_LABEL_def)
  then show ?thesis
    by (cases "lbls (tvalue t)") (simp_all add: target_def)
next
  assume "is_INT_token t"
  then have ty: "ttype t = ''INT''" and i: "is_INT (tvalue t)"
    by (simp_all add: is_INT_token_def)
  from py_int_INT [OF i] obtain n where "py_int (tvalue t) = Inr n" by blast
  then have "target lbls t = clamp_literal t n"
    using ty by (simp add: target_literal)
  with clamp_literal_Some [of t n] show ?thesis by simp
qed

lemma wf_stmt_cases:
  assumes "wf_stmt st"
  obtains (jp) t where "st = Tree ''jp'' [t]" "is_LABEL t \<or> is_INT_token t"
  | (ldi) d s where "st = Tree ''ldi'' [d, s]" "is_REG d" "is_IMMINT s \<or> is_IMMLABEL s"
  | (two) m d s where "st = Tree m [d, s]" "m \<in> set [''ld'', ''neg'', ''round'', ''floor'']"
      "is_REG d" "is_REG s"
  | (three) m d s1 s2 where "st = Tree m [d, s1, s2]"
      "m \<in> set [''add'', ''sub'', ''mul'', ''div'', ''mod'']" "is_REG d" "is_REG s1" "is_REG s2"
proof (cases st)
  case (Tree m ops)
  with assms show ?thesis
    by (auto simp: wf_stmt_def split: list.splits intro: jp ldi two three)
qed

lemma stmt_word_grammar:
  assumes "wf_stmt st"
  shows "\<exists>w d. stmt_word lbls st = (Inr w, d)"
  using assms
proof (cases rule: wf_stmt_cases)
  case (jp t)
  from target_grammar [OF jp(2), of lbls] obtain v d where "target lbls t = (Inr (Some v), d)"
    by blast
  then show ?thesis
    by (simp add: jp(1) stmt_word_def INSTRUCTIONS_def word_jump_def op_at_def)
next
  case (ldi d s)
  from reg_REG [OF ldi(2)] obtain n where n: "reg d = Inr n" by blast
  from imm_grammar [OF ldi(3), of lbls] obtain v e where "imm lbls s = (Inr (Some v), e)"
    by blast
  with n show ?thesis
    by (simp add: ldi(1) stmt_word_def INSTRUCTIONS_def word_dstimm_def op_at_def reg_at_def)
next
  case (two m d s)
  from reg_REG [OF two(3)] obtain n where n: "reg d = Inr n" by blast
  from reg_REG [OF two(4)] obtain k where k: "reg s = Inr k" by blast
  from two(2) obtain base where "INSTRUCTIONS m = Some (base, word_2addr)"
    by (auto simp: INSTRUCTIONS_def)
  from stmt_word_2addr [OF n k this] show ?thesis
    by (simp add: two(1))
next
  case (three m d s1 s2)
  from reg_REG [OF three(3)] obtain n where n: "reg d = Inr n" by blast
  from reg_REG [OF three(4)] obtain k where k: "reg s1 = Inr k" by blast
  from reg_REG [OF three(5)] obtain j where j: "reg s2 = Inr j" by blast
  from three(2) obtain base where "INSTRUCTIONS m = Some (base, word_3addr)"
    by (auto simp: INSTRUCTIONS_def)
  from stmt_word_3addr [OF n k j this] show ?thesis
    by (simp add: three(1))
qed











section \<open>Programs whose labels are all different\<close>

text \<open>When its label stands in the table at the current address, a line of the
  grammar passes pass 2 and advances the address counter by one for a statement.\<close>

lemma finish_line_passes:
  assumes "label_of ln = [] \<or> labels a (label_of ln) = Some (address a)"
  shows "raised (finish_line a ln w i ops d) = None \<and>
         address (state (finish_line a ln w i ops d)) =
           address a + (if line_stmt ln \<noteq> None then 1 else 0)"
  using assms by (auto simp: finish_line_def Let_def)

lemma line_pass2_passes:
  assumes "wf_line ln" and "label_of ln = [] \<or> labels a (label_of ln) = Some (address a)"
  shows "raised (line_pass2 a ln) = None \<and>
         address (state (line_pass2 a ln)) = address a + (if line_stmt ln \<noteq> None then 1 else 0)"
proof (cases "line_stmt ln")
  case None
  then show ?thesis
    using finish_line_passes [OF assms(2)] by (simp add: line_pass2_def)
next
  case (Some st)
  with assms(1) have "wf_stmt st" by (simp add: wf_line_def)
  from stmt_word_grammar [OF this, of "labels a"] obtain w d
    where "stmt_word (labels a) st = (Inr w, d)" by blast
  then show ?thesis
    using Some finish_line_passes [OF assms(2)] by (simp add: line_pass2_def)
qed

lemma visit_pass2_passes:
  assumes "list_all wf_line q"
    and "\<forall>pre ln post. q = pre @ ln # post \<and> label_of ln \<noteq> [] \<longrightarrow>
           labels a (label_of ln) = Some (address a + int (count_stmts pre))"
  shows "raised (visit_pass2 a q) = None"
  using assms
proof (induction q arbitrary: a)
  case Nil
  then show ?case by simp
next
  case (Cons ln q)
  from Cons.prems(1) have wf: "wf_line ln" by simp
  from Cons.prems(2) [rule_format, of "[]" ln q]
  have lab: "label_of ln = [] \<or> labels a (label_of ln) = Some (address a)"
    by (auto simp: count_stmts_def)
  note step = line_pass2_passes [OF wf lab]
  have "raised (visit_pass2 (state (line_pass2 a ln)) q) = None"
  proof (rule Cons.IH)
    show "list_all wf_line q" using Cons.prems(1) by simp
    show "\<forall>pre ln' post. q = pre @ ln' # post \<and> label_of ln' \<noteq> [] \<longrightarrow>
            labels (state (line_pass2 a ln)) (label_of ln') =
              Some (address (state (line_pass2 a ln)) + int (count_stmts pre))"
    proof (intro allI impI)
      fix pre ln' post
      assume h: "q = pre @ ln' # post \<and> label_of ln' \<noteq> []"
      then have "ln # q = (ln # pre) @ ln' # post \<and> label_of ln' \<noteq> []" by simp
      from Cons.prems(2) [rule_format, OF this]
      show "labels (state (line_pass2 a ln)) (label_of ln') =
              Some (address (state (line_pass2 a ln)) + int (count_stmts pre))"
        using step by (simp add: line_pass2_labels count_stmts_def)
    qed
  qed
  with step show ?case by (simp add: Let_def)
qed

text \<open>The assertion of pass 2 holds, and the request ends normally, for every
  program of the grammar in which no label stands on two lines.\<close>

lemma request_distinct_labels:
  assumes "wf_program p" and "distinct (filter (\<lambda>l. l \<noteq> []) (map label_of p))"
  shows "raised (request a p) = None"
proof -
  let ?a1 = "visit_pass1 (clear a\<lparr>address := 0\<rparr>) p"
  have "\<forall>pre ln post. p = pre @ ln # post \<and> label_of ln \<noteq> [] \<longrightarrow>
          labels (?a1\<lparr>address := 0\<rparr>) (label_of ln) =
            Some (address (?a1\<lparr>address := 0\<rparr>) + int (count_stmts pre))"
  proof (intro allI impI)
    fix pre ln post
    assume h: "p = pre @ ln # post \<and> label_of ln \<noteq> []"
    with assms(2) have "label_of ln \<notin> set (map label_of post)"
      by auto
    then have "list_all (\<lambda>ln'. label_of ln' \<noteq> label_of ln) post"
      unfolding list_all_iff by (metis image_eqI set_map)
    from visit_pass1_last_definition [OF _ this, of "clear a\<lparr>address := 0\<rparr>" pre] h
    show "labels (?a1\<lparr>address := 0\<rparr>) (label_of ln) =
            Some (address (?a1\<lparr>address := 0\<rparr>) + int (count_stmts pre))"
      by simp
  qed
  from visit_pass2_passes [OF _ this] assms(1) show ?thesis
    by (simp add: request_def assemble_def wf_program_def Let_def)
qed


end
